theory Spec2Isabelle
  imports Complex_Main
begin

section \<open>Python strings\<close>

text \<open>
  A Python \<open>str\<close> is a sequence of Unicode code points; a code point is the natural
  number that \<open>ord\<close> returns. \<open>ustr\<close> reads an ASCII literal as such a sequence.
\<close>

type_synonym codepoint = nat
type_synonym pystr = "codepoint list"

definition ustr :: "string \<Rightarrow> pystr" where
  "ustr s = map of_char s"

text \<open>
  \<open>str.isalpha\<close> and \<open>str.lower\<close> are decided by the Unicode character database of the
  interpreter, which is no part of the repository. Both are parameters of the model:
  \<open>isalpha_cp\<close> says which code points are alphabetic, \<open>str_lower\<close> is \<open>str.lower\<close>.
\<close>

record unicode =
  isalpha_cp :: "codepoint \<Rightarrow> bool"
  str_lower :: "pystr \<Rightarrow> pystr"

text \<open>\<open>s.isalpha()\<close>: at least one character, and all of them alphabetic.\<close>

definition str_isalpha :: "unicode \<Rightarrow> pystr \<Rightarrow> bool" where
  "str_isalpha U s = (s \<noteq> [] \<and> list_all (isalpha_cp U) s)"

text \<open>\<open>sub in s\<close> on strings is the substring test.\<close>

fun startswith :: "pystr \<Rightarrow> pystr \<Rightarrow> bool" where
  "startswith [] s = True"
| "startswith (x # xs) [] = False"
| "startswith (x # xs) (y # ys) = (x = y \<and> startswith xs ys)"

fun str_in :: "pystr \<Rightarrow> pystr \<Rightarrow> bool" where
  "str_in sub [] = (sub = [])"
| "str_in sub (c # cs) = (startswith sub (c # cs) \<or> str_in sub cs)"

text \<open>\<open>sep.join(xs)\<close>.\<close>

fun join :: "pystr \<Rightarrow> pystr list \<Rightarrow> pystr" where
  "join sep [] = []"
| "join sep [x] = x"
| "join sep (x # y # ys) = x @ sep @ join sep (y # ys)"

text \<open>\<open>str(n)\<close> for an integer, as an f-string formats it.\<close>

fun str_nat :: "nat \<Rightarrow> pystr" where
  "str_nat n = (if n < 10 then [48 + n] else str_nat (n div 10) @ [48 + n mod 10])"

declare str_nat.simps [simp del]

definition str_int :: "int \<Rightarrow> pystr" where
  "str_int i = (if i < 0 then 45 # str_nat (nat (- i)) else str_nat (nat i))"

text \<open>\<open>int(x)\<close> on a float truncates towards zero.\<close>

definition py_int :: "real \<Rightarrow> int" where
  "py_int x = (if 0 \<le> x then \<lfloor>x\<rfloor> else \<lceil>x\<rceil>)"

abbreviation USCORE :: pystr where
  "USCORE \<equiv> [95]"

abbreviation SPACE :: pystr where
  "SPACE \<equiv> [32]"

abbreviation QUOTE :: pystr where
  "QUOTE \<equiv> [39]"

section \<open>The game object\<close>

datatype GameLevel = BASIC | INTERMEDIATE

datatype error = ValueError pystr | IndexError

text \<open>
  The attributes of \<open>HangmanGame\<close>. Clock readings (\<open>time.time()\<close>) are real numbers;
  \<open>display_word\<close> is a list of strings, as in the source.
\<close>

record HangmanGame =
  level :: GameLevel
  max_lives :: int
  current_lives :: int
  time_limit :: int
  guessed_letters :: "pystr set"
  game_over :: bool
  won :: bool
  target_word :: pystr
  display_word :: "pystr list"
  start_time :: real
  dictionary :: "pystr list"

text \<open>
  A method either raises or returns; in both cases the object is left in some state,
  which the outcome carries.
\<close>

datatype 'a outcome = Raise error HangmanGame | Return 'a HangmanGame

fun state_of :: "'a outcome \<Rightarrow> HangmanGame" where
  "state_of (Raise e g) = g"
| "state_of (Return v g) = g"

text \<open>
  \<open>random.choice(seq)\<close>: \<open>IndexError\<close> on an empty sequence, otherwise the element at
  the index the generator draws; \<open>r\<close> is the draw, reduced into range.
\<close>

definition random_choice :: "nat \<Rightarrow> 'a list \<Rightarrow> error + 'a" where
  "random_choice r xs = (if xs = [] then Inl IndexError else Inr (xs ! (r mod length xs)))"

text \<open>The loop of \<open>_select_target\<close>: one slot per character of the target.\<close>

primrec mask :: "unicode \<Rightarrow> pystr \<Rightarrow> pystr list" where
  "mask U [] = []"
| "mask U (c # cs) = (if isalpha_cp U c then USCORE else [c]) # mask U cs"

definition select_target :: "unicode \<Rightarrow> nat \<Rightarrow> HangmanGame \<Rightarrow> unit outcome" where
  "select_target U r g =
     (case random_choice r (dictionary g) of
        Inl e \<Rightarrow> Raise e g
      | Inr w \<Rightarrow> Return () (g\<lparr>target_word := w, display_word := mask U w\<rparr>))"

text \<open>
  \<open>__init__\<close>. The argument \<open>dict\<close> is what \<open>_load_dictionary\<close> returns (it reads a
  file); when \<open>_select_target\<close> raises, no object is constructed.
\<close>

definition init :: "unicode \<Rightarrow> GameLevel \<Rightarrow> pystr list \<Rightarrow> nat \<Rightarrow> error + HangmanGame" where
  "init U lv dict r =
     (case select_target U r
        \<lparr>level = lv, max_lives = 6, current_lives = 6, time_limit = 15,
         guessed_letters = {}, game_over = False, won = False, target_word = [],
         display_word = [], start_time = 0, dictionary = dict\<rparr> of
        Raise e g \<Rightarrow> Inl e
      | Return u g \<Rightarrow> Inr g)"

definition start_timer :: "real \<Rightarrow> HangmanGame \<Rightarrow> HangmanGame" where
  "start_timer now g = g\<lparr>start_time := now\<rparr>"

definition get_remaining_time :: "real \<Rightarrow> HangmanGame \<Rightarrow> real" where
  "get_remaining_time now g =
     (if start_time g = 0 then real_of_int (time_limit g)
      else max 0 (real_of_int (time_limit g) - (now - start_time g)))"

definition is_time_up :: "real \<Rightarrow> HangmanGame \<Rightarrow> bool" where
  "is_time_up now g = (get_remaining_time now g \<le> 0)"

definition is_won :: "HangmanGame \<Rightarrow> bool" where
  "is_won g = (USCORE \<notin> set (display_word g))"

text \<open>
  The loop over \<open>enumerate(self.target_word)\<close> in \<open>make_guess\<close>. A list assignment
  beyond the end of \<open>display_word\<close> raises \<open>IndexError\<close> and leaves the list as it is
  at that moment.
\<close>

fun reveal :: "pystr \<Rightarrow> pystr \<Rightarrow> nat \<Rightarrow> pystr list \<Rightarrow> error option \<times> pystr list" where
  "reveal letter [] i d = (None, d)"
| "reveal letter (c # cs) i d =
     (if [c] = letter
      then (if i < length d then reveal letter cs (Suc i) (d[i := letter])
            else (Some IndexError, d))
      else reveal letter cs (Suc i) d)"

text \<open>The messages of the two \<open>ValueError\<close>s of \<open>make_guess\<close>.\<close>

definition single_letter_msg :: pystr where
  "single_letter_msg = ustr ''Please enter a single letter''"

definition already_guessed_msg :: "pystr \<Rightarrow> pystr" where
  "already_guessed_msg l = ustr ''Letter '' @ QUOTE @ l @ QUOTE @ ustr '' has already been guessed''"

definition make_guess :: "unicode \<Rightarrow> HangmanGame \<Rightarrow> pystr \<Rightarrow> bool outcome" where
  "make_guess U g letter =
     (if length letter \<noteq> 1 \<or> \<not> str_isalpha U letter
      then Raise (ValueError single_letter_msg) g
      else let l = str_lower U letter in
        if l \<in> guessed_letters g
        then Raise (ValueError (already_guessed_msg l)) g
        else let g1 = g\<lparr>guessed_letters := insert l (guessed_letters g)\<rparr> in
          if str_in l (target_word g1)
          then (case reveal l (target_word g1) 0 (display_word g1) of
                  (Some e, d) \<Rightarrow> Raise e (g1\<lparr>display_word := d\<rparr>)
                | (None, d) \<Rightarrow>
                    let g2 = g1\<lparr>display_word := d\<rparr> in
                    Return True (if is_won g2 then g2\<lparr>won := True, game_over := True\<rparr>
                                 else g2))
          else let g2 = g1\<lparr>current_lives := current_lives g1 - 1\<rparr> in
               Return False (if current_lives g2 \<le> 0 then g2\<lparr>game_over := True\<rparr>
                             else g2))"

definition is_game_over :: "real \<Rightarrow> HangmanGame \<Rightarrow> bool" where
  "is_game_over now g = (game_over g \<or> is_time_up now g \<or> current_lives g \<le> 0)"

definition get_display_string :: "HangmanGame \<Rightarrow> pystr" where
  "get_display_string g = join SPACE (display_word g)"

text \<open>The four f-strings of \<open>get_game_status\<close>.\<close>

definition victory_msg :: "pystr \<Rightarrow> pystr" where
  "victory_msg t = ustr ''Congratulations! You guessed the word: '' @ QUOTE @ t @ QUOTE"

definition time_up_msg :: "pystr \<Rightarrow> pystr" where
  "time_up_msg t = ustr ''Time'' @ QUOTE @ ustr ''s up! The answer was: '' @ QUOTE @ t @ QUOTE"

definition loss_msg :: "pystr \<Rightarrow> pystr" where
  "loss_msg t = ustr ''Game over! The answer was: '' @ QUOTE @ t @ QUOTE"

definition remaining_msg :: "int \<Rightarrow> pystr" where
  "remaining_msg n = ustr ''Time remaining: '' @ str_int n @ ustr '' seconds''"

text \<open>
  \<open>get_game_status\<close> reads the clock twice when it reaches its last branch: \<open>t1\<close> in
  \<open>is_time_up\<close>, \<open>t2\<close> in \<open>get_remaining_time\<close>.
\<close>

definition get_game_status :: "real \<Rightarrow> real \<Rightarrow> HangmanGame \<Rightarrow> pystr" where
  "get_game_status t1 t2 g =
     (if won g then victory_msg (target_word g)
      else if is_time_up t1 g then time_up_msg (target_word g)
      else if current_lives g \<le> 0 then loss_msg (target_word g)
      else remaining_msg (py_int (get_remaining_time t2 g)))"

definition reset_game :: "unicode \<Rightarrow> nat \<Rightarrow> HangmanGame \<Rightarrow> unit outcome" where
  "reset_game U r g =
     select_target U r
       (g\<lparr>current_lives := max_lives g, guessed_letters := {}, game_over := False,
          won := False, start_time := 0\<rparr>)"

section \<open>Runs of the game\<close>

text \<open>
  The mutating methods, with what the environment supplies: the clock reading for
  \<open>start_timer\<close>, the input for \<open>make_guess\<close>, the draw for \<open>reset_game\<close>.
\<close>

datatype op = StartTimer real | MakeGuess pystr | ResetGame nat

fun step :: "unicode \<Rightarrow> HangmanGame \<Rightarrow> op \<Rightarrow> HangmanGame" where
  "step U g (StartTimer now) = start_timer now g"
| "step U g (MakeGuess letter) = state_of (make_guess U g letter)"
| "step U g (ResetGame r) = state_of (reset_game U r g)"

definition run :: "unicode \<Rightarrow> HangmanGame \<Rightarrow> op list \<Rightarrow> HangmanGame" where
  "run U g ops = foldl (step U) g ops"

inductive reachable :: "unicode \<Rightarrow> HangmanGame \<Rightarrow> bool" for U :: unicode where
  reach_init: "init U lv dict r = Inr g \<Longrightarrow> reachable U g"
| reach_step: "reachable U g \<Longrightarrow> reachable U (step U g x)"

text \<open>
  The tables of Python restricted to Basic Latin and to U+0130 (capital I with dot
  above, whose lower case is the two code points U+0069 U+0307); used for concrete runs
  whose characters all lie in that fragment.
\<close>

definition latin :: unicode where
  "latin = \<lparr>isalpha_cp = (\<lambda>c. (65 \<le> c \<and> c \<le> 90) \<or> (97 \<le> c \<and> c \<le> 122) \<or> c = 304),
            str_lower = (\<lambda>s. concat (map (\<lambda>c. if 65 \<le> c \<and> c \<le> 90 then [c + 32]
                                             else if c = 304 then [105, 775] else [c]) s))\<rparr>"

section \<open>Specification vocabulary\<close>

text \<open>
  The pattern after a hit, position by position: every slot whose target character is
  the guessed letter shows the letter, every other slot is as before.
\<close>

definition revealed :: "pystr \<Rightarrow> pystr \<Rightarrow> pystr list \<Rightarrow> pystr list" where
  "revealed l t d = map2 (\<lambda>c e. if [c] = l then l else e) t d"

definition pattern_inv :: "unicode \<Rightarrow> HangmanGame \<Rightarrow> bool" where
  "pattern_inv U g =
     (length (display_word g) = length (target_word g) \<and>
      (\<forall>i < length (target_word g).
         display_word g ! i =
           (if isalpha_cp U (target_word g ! i) \<and> [target_word g ! i] \<notin> guessed_letters g
            then USCORE else [target_word g ! i])))"

definition frame_inv :: "HangmanGame \<Rightarrow> bool" where
  "frame_inv g =
     (dictionary g \<noteq> [] \<and> target_word g \<in> set (dictionary g) \<and>
      max_lives g = 6 \<and> time_limit g = 15)"

definition lives_inv :: "HangmanGame \<Rightarrow> bool" where
  "lives_inv g = (current_lives g \<le> max_lives g \<and> (current_lives g \<le> 0 \<longrightarrow> game_over g))"

definition won_inv :: "HangmanGame \<Rightarrow> bool" where
  "won_inv g = (won g \<longrightarrow> is_won g \<and> game_over g)"

text \<open>What a guess that passes both checks does, when the pattern has the target's length.\<close>

definition hit_state :: "HangmanGame \<Rightarrow> pystr \<Rightarrow> HangmanGame" where
  "hit_state g l =
     (let g2 = g\<lparr>guessed_letters := insert l (guessed_letters g),
                 display_word := revealed l (target_word g) (display_word g)\<rparr>
      in if is_won g2 then g2\<lparr>won := True, game_over := True\<rparr> else g2)"

definition miss_state :: "HangmanGame \<Rightarrow> pystr \<Rightarrow> HangmanGame" where
  "miss_state g l =
     (let g2 = g\<lparr>guessed_letters := insert l (guessed_letters g),
                 current_lives := current_lives g - 1\<rparr>
      in if current_lives g2 \<le> 0 then g2\<lparr>game_over := True\<rparr> else g2)"

definition game_inv :: "unicode \<Rightarrow> HangmanGame \<Rightarrow> bool" where
  "game_inv U g = (pattern_inv U g \<and> frame_inv g \<and> lives_inv g \<and> won_inv g)"

text \<open>
  Runs that follow the discipline of the \<open>main\<close> loop: a guess is forwarded to
  \<open>make_guess\<close> only after \<open>is_game_over\<close> returned false.
\<close>

inductive played :: "unicode \<Rightarrow> HangmanGame \<Rightarrow> bool" for U :: unicode where
  played_init: "init U lv dict r = Inr g \<Longrightarrow> played U g"
| played_timer: "played U g \<Longrightarrow> played U (start_timer now g)"
| played_guess: "played U g \<Longrightarrow> \<not> is_game_over now g \<Longrightarrow>
                 played U (state_of (make_guess U g letter))"
| played_reset: "played U g \<Longrightarrow> played U (state_of (reset_game U r g))"

text \<open>The game on the dictionary \<open>["cat"]\<close> after the six misses x, y, z, w, v, u.\<close>

definition lost_cat :: HangmanGame where
  "lost_cat = \<lparr>level = BASIC, max_lives = 6, current_lives = 0, time_limit = 15,
     guessed_letters = {ustr ''x'', ustr ''y'', ustr ''z'', ustr ''w'', ustr ''v'', ustr ''u''},
     game_over = True, won = False, target_word = ustr ''cat'',
     display_word = [USCORE, USCORE, USCORE], start_time = 0, dictionary = [ustr ''cat'']\<rparr>"

text \<open>The lost game after the further guess \<open>C\<close>, a hit.\<close>

definition cat_after_c :: HangmanGame where
  "cat_after_c = lost_cat\<lparr>guessed_letters := insert (ustr ''c'') (guessed_letters lost_cat),
                          display_word := [ustr ''c'', USCORE, USCORE]\<rparr>"

text \<open>
  A game whose target is the lower case of Istanbul written with U+0130, the nine code points
  U+0069 U+0307 s t a n b u l; U+0307, a combining mark, is not alphabetic.
\<close>

definition istanbul_game :: HangmanGame where
  "istanbul_game = \<lparr>level = BASIC, max_lives = 6, current_lives = 6, time_limit = 15,
     guessed_letters = {}, game_over = False, won = False,
     target_word = [105, 775] @ ustr ''stanbul'',
     display_word = [USCORE, [775], USCORE, USCORE, USCORE, USCORE, USCORE, USCORE, USCORE],
     start_time = 0, dictionary = [[105, 775] @ ustr ''stanbul'']\<rparr>"

text \<open>A game whose target has no letter, and the game on \<open>["cat"]\<close> after c, a, t.\<close>

definition digits_game :: HangmanGame where
  "digits_game = \<lparr>level = BASIC, max_lives = 6, current_lives = 6, time_limit = 15,
     guessed_letters = {}, game_over = False, won = False, target_word = ustr ''42'',
     display_word = [ustr ''4'', ustr ''2''], start_time = 0, dictionary = [ustr ''42'']\<rparr>"

definition won_cat :: HangmanGame where
  "won_cat = \<lparr>level = BASIC, max_lives = 6, current_lives = 6, time_limit = 15,
     guessed_letters = {ustr ''c'', ustr ''a'', ustr ''t''}, game_over = True, won = True,
     target_word = ustr ''cat'', display_word = [ustr ''c'', ustr ''a'', ustr ''t''],
     start_time = 0, dictionary = [ustr ''cat'']\<rparr>"

text \<open>
  The fresh game on \<open>["cat"]\<close> with the timer started at clock reading 100, and the won
  game with the timer started at 100.
\<close>

definition timed_cat :: HangmanGame where
  "timed_cat = \<lparr>level = BASIC, max_lives = 6, current_lives = 6, time_limit = 15,
     guessed_letters = {}, game_over = False, won = False, target_word = ustr ''cat'',
     display_word = [USCORE, USCORE, USCORE], start_time = 100, dictionary = [ustr ''cat'']\<rparr>"

definition won_cat_late :: HangmanGame where
  "won_cat_late = won_cat\<lparr>start_time := 100\<rparr>"

text \<open>
  A masked position of the pattern: a letter of the target whose slot still shows the
  placeholder.
\<close>

definition masked :: "unicode \<Rightarrow> HangmanGame \<Rightarrow> nat \<Rightarrow> bool" where
  "masked U g i =
     (i < length (target_word g) \<and> isalpha_cp U (target_word g ! i) \<and>
      display_word g ! i = USCORE)"

definition no_masked :: "unicode \<Rightarrow> HangmanGame \<Rightarrow> bool" where
  "no_masked U g = (\<forall>i < length (target_word g). \<not> masked U g i)"

text \<open>The game on \<open>["a_b"]\<close> after the guesses a and b.\<close>

definition a_b_game :: HangmanGame where
  "a_b_game = \<lparr>level = BASIC, max_lives = 6, current_lives = 6, time_limit = 15,
     guessed_letters = {ustr ''a'', ustr ''b''}, game_over = False, won = False,
     target_word = ustr ''a_b'', display_word = [ustr ''a'', USCORE, ustr ''b''],
     start_time = 0, dictionary = [ustr ''a_b'']\<rparr>"

section \<open>Strings and the reveal loop\<close>

lemma reveal_fst: "i + length t \<le> length d \<Longrightarrow> fst (reveal l t i d) = None"
  by (induction t arbitrary: i d) auto

lemma reveal_length: "length (snd (reveal l t i d)) = length d"
  by (induction t arbitrary: i d) auto

lemma reveal_nth: "i + length t \<le> length d \<Longrightarrow> j < length d \<Longrightarrow>
  snd (reveal l t i d) ! j = (if i \<le> j \<and> j < i + length t \<and> [t ! (j - i)] = l then l else d ! j)"
proof (induction t arbitrary: i d)
  case Nil
  then show ?case by auto
next
  case (Cons c cs)
  then show ?case
    by (auto simp: nth_Cons' nth_list_update Suc_diff_le)
qed

lemma reveal_revealed:
  assumes "length d = length t"
  shows "reveal l t 0 d = (None, revealed l t d)"
proof -
  have "snd (reveal l t 0 d) = revealed l t d"
    using assms by (intro nth_equalityI) (simp_all add: reveal_length reveal_nth revealed_def)
  moreover have "fst (reveal l t 0 d) = None"
    using assms by (simp add: reveal_fst)
  ultimately show ?thesis by (simp add: prod_eq_iff)
qed

lemma startswith_append: "startswith p (p @ r)"
  by (induction p) auto

lemma str_in_prefix: "str_in t (t @ b)"
  by (cases "t @ b") (auto simp: startswith_append simp del: startswith.simps dest: sym)

lemma str_in_append: "str_in t (a @ t @ b)"
  by (induction a) (auto simp: str_in_prefix)

lemma str_in_single: "str_in [c] s = (c \<in> set s)"
  by (induction s) auto

lemma make_guess_invalid:
  "length letter \<noteq> 1 \<or> \<not> str_isalpha U letter \<Longrightarrow>
   make_guess U g letter = Raise (ValueError single_letter_msg) g"
  by (simp add: make_guess_def)

lemma make_guess_duplicate:
  "length letter = 1 \<Longrightarrow> str_isalpha U letter \<Longrightarrow> str_lower U letter \<in> guessed_letters g \<Longrightarrow>
   make_guess U g letter = Raise (ValueError (already_guessed_msg (str_lower U letter))) g"
  by (simp add: make_guess_def)

lemma make_guess_accepted:
  assumes "length (display_word g) = length (target_word g)"
    and "length letter = 1" and "str_isalpha U letter"
    and "str_lower U letter \<notin> guessed_letters g"
  shows "make_guess U g letter =
     (if str_in (str_lower U letter) (target_word g)
      then Return True (hit_state g (str_lower U letter))
      else Return False (miss_state g (str_lower U letter)))"
  using assms
  by (simp add: make_guess_def reveal_revealed hit_state_def miss_state_def Let_def)

lemma mask_length: "length (mask U w) = length w"
  by (induction w) auto

lemma mask_nth: "i < length w \<Longrightarrow> mask U w ! i = (if isalpha_cp U (w ! i) then USCORE else [w ! i])"
  by (induction w arbitrary: i) (auto simp: nth_Cons')

lemma select_target_nonempty:
  "dictionary g \<noteq> [] \<Longrightarrow>
   select_target U r g =
     Return () (g\<lparr>target_word := dictionary g ! (r mod length (dictionary g)),
                  display_word := mask U (dictionary g ! (r mod length (dictionary g)))\<rparr>)"
  by (simp add: select_target_def random_choice_def)

lemma select_target_empty: "dictionary g = [] \<Longrightarrow> select_target U r g = Raise IndexError g"
  by (simp add: select_target_def random_choice_def)

lemma pattern_inv_fresh:
  "guessed_letters g = {} \<Longrightarrow> display_word g = mask U (target_word g) \<Longrightarrow> pattern_inv U g"
  by (simp add: pattern_inv_def mask_length mask_nth)

lemma init_nonempty:
  "dict \<noteq> [] \<Longrightarrow>
   init U lv dict r =
     Inr \<lparr>level = lv, max_lives = 6, current_lives = 6, time_limit = 15,
          guessed_letters = {}, game_over = False, won = False,
          target_word = dict ! (r mod length dict),
          display_word = mask U (dict ! (r mod length dict)), start_time = 0,
          dictionary = dict\<rparr>"
  by (simp add: init_def select_target_nonempty)

lemma init_empty: "init U lv [] r = Inl IndexError"
  by (simp add: init_def select_target_empty)

lemma init_inv: assumes "init U lv dict r = Inr g" shows "game_inv U g"
proof -
  have ne: "dict \<noteq> []" using assms by (auto simp: init_empty)
  then have "r mod length dict < length dict" by simp
  then have mem: "dict ! (r mod length dict) \<in> set dict" by (rule nth_mem)
  from assms init_nonempty [OF ne, of U lv r]
  have g: "g = \<lparr>level = lv, max_lives = 6, current_lives = 6, time_limit = 15,
          guessed_letters = {}, game_over = False, won = False,
          target_word = dict ! (r mod length dict),
          display_word = mask U (dict ! (r mod length dict)), start_time = 0,
          dictionary = dict\<rparr>" by simp
  have "pattern_inv U g" by (rule pattern_inv_fresh) (simp_all add: g)
  moreover have "frame_inv g" using ne mem by (simp add: frame_inv_def g)
  moreover have "lives_inv g" by (simp add: lives_inv_def g)
  moreover have "won_inv g" by (simp add: won_inv_def g)
  ultimately show ?thesis by (simp add: game_inv_def)
qed

lemma start_timer_inv: "game_inv U g \<Longrightarrow> game_inv U (start_timer now g)"
  by (simp add: game_inv_def pattern_inv_def frame_inv_def lives_inv_def won_inv_def
      start_timer_def is_won_def)

lemma reset_game_inv:
  assumes "game_inv U g" shows "game_inv U (state_of (reset_game U r g))"
proof -
  let ?w = "dictionary g ! (r mod length (dictionary g))"
  let ?g = "g\<lparr>current_lives := max_lives g, guessed_letters := {}, game_over := False,
          won := False, start_time := 0, target_word := ?w, display_word := mask U ?w\<rparr>"
  from assms have ne: "dictionary g \<noteq> []" and ml: "max_lives g = 6" and tl: "time_limit g = 15"
    by (simp_all add: game_inv_def frame_inv_def)
  then have "r mod length (dictionary g) < length (dictionary g)" by simp
  then have mem: "?w \<in> set (dictionary g)" by (rule nth_mem)
  have eq: "state_of (reset_game U r g) = ?g"
    using ne by (simp add: reset_game_def select_target_nonempty)
  have "pattern_inv U ?g" by (rule pattern_inv_fresh) simp_all
  moreover have "frame_inv ?g" using ne mem ml tl by (simp add: frame_inv_def)
  moreover have "lives_inv ?g" using ml by (simp add: lives_inv_def)
  moreover have "won_inv ?g" by (simp add: won_inv_def)
  ultimately show ?thesis unfolding eq by (simp add: game_inv_def)
qed

lemma revealed_length: "length d = length t \<Longrightarrow> length (revealed l t d) = length t"
  by (simp add: revealed_def)

lemma revealed_nth:
  "length d = length t \<Longrightarrow> i < length t \<Longrightarrow>
   revealed l t d ! i = (if [t ! i] = l then l else d ! i)"
  by (simp add: revealed_def)

lemma hit_state_fields:
  "guessed_letters (hit_state g l) = insert l (guessed_letters g)"
  "display_word (hit_state g l) = revealed l (target_word g) (display_word g)"
  "target_word (hit_state g l) = target_word g"
  "current_lives (hit_state g l) = current_lives g"
  "max_lives (hit_state g l) = max_lives g"
  "time_limit (hit_state g l) = time_limit g"
  "dictionary (hit_state g l) = dictionary g"
  "level (hit_state g l) = level g"
  "start_time (hit_state g l) = start_time g"
  by (simp_all add: hit_state_def Let_def)

lemma hit_state_flags:
  "won (hit_state g l) = (won g \<or> is_won (hit_state g l))"
  "game_over (hit_state g l) = (game_over g \<or> is_won (hit_state g l))"
  by (auto simp: hit_state_def Let_def is_won_def)

lemma miss_state_fields:
  "guessed_letters (miss_state g l) = insert l (guessed_letters g)"
  "display_word (miss_state g l) = display_word g"
  "target_word (miss_state g l) = target_word g"
  "current_lives (miss_state g l) = current_lives g - 1"
  "max_lives (miss_state g l) = max_lives g"
  "time_limit (miss_state g l) = time_limit g"
  "dictionary (miss_state g l) = dictionary g"
  "level (miss_state g l) = level g"
  "start_time (miss_state g l) = start_time g"
  "won (miss_state g l) = won g"
  "game_over (miss_state g l) = (game_over g \<or> current_lives g \<le> 1)"
  by (auto simp: miss_state_def Let_def)

lemma pattern_inv_hit: assumes "pattern_inv U g" shows "pattern_inv U (hit_state g l)"
  using assms
  by (auto simp: pattern_inv_def hit_state_fields revealed_length revealed_nth)

lemma pattern_inv_miss:
  assumes "pattern_inv U g" and "\<not> str_in l (target_word g)"
  shows "pattern_inv U (miss_state g l)"
proof -
  have "[target_word g ! i] \<noteq> l" if "i < length (target_word g)" for i
  proof
    assume "[target_word g ! i] = l"
    with assms(2) have "target_word g ! i \<notin> set (target_word g)"
      by (auto simp: str_in_single)
    with that show False by simp
  qed
  with assms(1) show ?thesis
    by (auto simp: pattern_inv_def miss_state_fields)
qed

lemma is_won_hit:
  assumes "pattern_inv U g" and "is_won g" shows "is_won (hit_state g l)"
proof -
  let ?t = "target_word g" and ?d = "display_word g"
  from assms(1) have len: "length ?d = length ?t" by (simp add: pattern_inv_def)
  have "revealed l ?t ?d ! i \<noteq> USCORE" if i: "i < length ?t" for i
  proof -
    from assms(2) i len have d: "?d ! i \<noteq> USCORE"
      by (auto simp: is_won_def in_set_conv_nth)
    show ?thesis
    proof (cases "[?t ! i] = l")
      case True
      with assms(1) i d show ?thesis
        by (auto simp: pattern_inv_def revealed_nth len split: if_splits)
    next
      case False
      with d i show ?thesis by (simp add: revealed_nth len)
    qed
  qed
  then show ?thesis
    by (auto simp: is_won_def hit_state_fields in_set_conv_nth revealed_length len)
qed

lemma make_guess_inv:
  assumes "game_inv U g" shows "game_inv U (state_of (make_guess U g letter))"
proof -
  from assms have p: "pattern_inv U g" and f: "frame_inv g" and l: "lives_inv g" and w: "won_inv g"
    by (simp_all add: game_inv_def)
  from p have len: "length (display_word g) = length (target_word g)"
    by (simp add: pattern_inv_def)
  let ?l = "str_lower U letter"
  consider (invalid) "length letter \<noteq> 1 \<or> \<not> str_isalpha U letter"
    | (dup) "length letter = 1" "str_isalpha U letter" "?l \<in> guessed_letters g"
    | (hit) "length letter = 1" "str_isalpha U letter" "?l \<notin> guessed_letters g"
        "str_in ?l (target_word g)"
    | (miss) "length letter = 1" "str_isalpha U letter" "?l \<notin> guessed_letters g"
        "\<not> str_in ?l (target_word g)"
    by blast
  then show ?thesis
  proof cases
    case invalid
    then show ?thesis using assms by (simp add: make_guess_invalid)
  next
    case dup
    then show ?thesis using assms by (simp add: make_guess_duplicate)
  next
    case hit
    then have eq: "state_of (make_guess U g letter) = hit_state g ?l"
      by (simp add: make_guess_accepted [OF len])
    have "pattern_inv U (hit_state g ?l)" using p by (rule pattern_inv_hit)
    moreover have "frame_inv (hit_state g ?l)" using f by (simp add: frame_inv_def hit_state_fields)
    moreover have "lives_inv (hit_state g ?l)"
      using l by (auto simp: lives_inv_def hit_state_fields hit_state_flags)
    moreover have "won_inv (hit_state g ?l)"
      using w is_won_hit [OF p] by (auto simp: won_inv_def hit_state_flags)
    ultimately show ?thesis unfolding eq by (simp add: game_inv_def)
  next
    case miss
    then have eq: "state_of (make_guess U g letter) = miss_state g ?l"
      by (simp add: make_guess_accepted [OF len])
    have "pattern_inv U (miss_state g ?l)" using p miss(4) by (rule pattern_inv_miss)
    moreover have "frame_inv (miss_state g ?l)" using f by (simp add: frame_inv_def miss_state_fields)
    moreover have "lives_inv (miss_state g ?l)"
      using l by (auto simp: lives_inv_def miss_state_fields)
    moreover have "won_inv (miss_state g ?l)"
      using w by (auto simp: won_inv_def miss_state_fields is_won_def)
    ultimately show ?thesis unfolding eq by (simp add: game_inv_def)
  qed
qed

lemma step_inv: "game_inv U g \<Longrightarrow> game_inv U (step U g x)"
  by (cases x) (simp_all add: start_timer_inv make_guess_inv reset_game_inv)

lemma reachable_inv: "reachable U g \<Longrightarrow> game_inv U g"
  by (induction rule: reachable.induct) (auto intro: init_inv step_inv)

lemma reachable_run: "reachable U g \<Longrightarrow> reachable U (run U g xs)"
  unfolding run_def by (induction xs arbitrary: g) (auto intro: reach_step)

section \<open>Concrete runs\<close>

lemma latin_simps:
  "isalpha_cp latin c = ((65 \<le> c \<and> c \<le> 90) \<or> (97 \<le> c \<and> c \<le> 122) \<or> c = 304)"
  "str_lower latin [c] = (if 65 \<le> c \<and> c \<le> 90 then [c + 32] else if c = 304 then [105, 775] else [c])"
  by (simp_all add: latin_def)

lemma init_cat: "init latin BASIC [ustr ''cat''] 0 =
   Inr \<lparr>level = BASIC, max_lives = 6, current_lives = 6, time_limit = 15,
     guessed_letters = {}, game_over = False, won = False, target_word = ustr ''cat'',
     display_word = [USCORE, USCORE, USCORE], start_time = 0, dictionary = [ustr ''cat'']\<rparr>"
  by (simp add: init_nonempty latin_simps ustr_def)

lemma make_guess_latin_miss:
  assumes "length (display_word g) = length (target_word g)"
    and "97 \<le> c" "c \<le> 122" "[c] \<notin> guessed_letters g" "c \<notin> set (target_word g)"
  shows "make_guess latin g [c] = Return False (miss_state g [c])"
  using assms by (simp add: make_guess_accepted str_isalpha_def latin_simps str_in_single)

lemma played_lost_cat: "played latin lost_cat"
proof -
  let ?g = "\<lambda>n G. \<lparr>level = BASIC, max_lives = 6, current_lives = n, time_limit = 15,
     guessed_letters = G, game_over = False, won = False, target_word = ustr ''cat'',
     display_word = [USCORE, USCORE, USCORE], start_time = 0, dictionary = [ustr ''cat'']\<rparr>"
  have t: "ustr ''cat'' = [99, 97, 116]" by (simp add: ustr_def)
  have p0: "played latin (?g 6 {})"
    by (rule played_init [of latin BASIC "[ustr ''cat'']" 0]) (simp add: init_cat)
  have g: "\<not> is_game_over 0 (?g n G)" if "0 < n" for n G
    using that by (simp add: is_game_over_def is_time_up_def get_remaining_time_def)
  have s: "state_of (make_guess latin (?g n G) [c]) = ?g (n - 1) (insert [c] G)"
    if "97 \<le> c" "c \<le> 122" "[c] \<notin> G" "c \<notin> {99, 97, 116}" "1 < n" for n G c
    using that by (simp add: make_guess_latin_miss miss_state_def t)
  have p1: "played latin (?g 5 {[120]})"
    using played_guess [OF p0 g, of "[120]"] by (simp add: s)
  have p2: "played latin (?g 4 {[121], [120]})"
    using played_guess [OF p1 g, of "[121]"] by (simp add: s)
  have p3: "played latin (?g 3 {[122], [121], [120]})"
    using played_guess [OF p2 g, of "[122]"] by (simp add: s)
  have p4: "played latin (?g 2 {[119], [122], [121], [120]})"
    using played_guess [OF p3 g, of "[119]"] by (simp add: s)
  have p5: "played latin (?g 1 {[118], [119], [122], [121], [120]})"
    using played_guess [OF p4 g, of "[118]"] by (simp add: s)
  have "state_of (make_guess latin (?g 1 {[118], [119], [122], [121], [120]}) [117]) = lost_cat"
    by (auto simp add: make_guess_latin_miss miss_state_def t lost_cat_def ustr_def)
  with played_guess [OF p5 g, of "[117]"] show ?thesis by simp
qed


section \<open>Lives and the game-over flag\<close>

lemma played_reachable: "played U g \<Longrightarrow> reachable U g"
proof (induction rule: played.induct)
  case (played_init lv dict r g)
  then show ?case by (rule reach_init)
next
  case (played_timer g now)
  from reach_step [OF played_timer.IH, of "StartTimer now"] show ?case by simp
next
  case (played_guess g now letter)
  from reach_step [OF played_guess.IH, of "MakeGuess letter"] show ?case by simp
next
  case (played_reset g r)
  from reach_step [OF played_reset.IH, of "ResetGame r"] show ?case by simp
qed

lemma make_guess_lives: "current_lives g - 1 \<le> current_lives (state_of (make_guess U g letter))"
  by (simp add: make_guess_def Let_def split: prod.splits option.splits)

lemma make_guess_game_over: "game_over g \<Longrightarrow> game_over (state_of (make_guess U g letter))"
  by (simp add: make_guess_def Let_def split: prod.splits option.splits)

lemma played_lives: "played U g \<Longrightarrow> 0 \<le> current_lives g"
proof (induction rule: played.induct)
  case (played_init lv dict r g)
  then have "dict \<noteq> []" by (auto simp: init_empty)
  from played_init init_nonempty [OF this, of U lv r] show ?case by auto
next
  case (played_timer g now)
  then show ?case by (simp add: start_timer_def)
next
  case (played_guess g now letter)
  then have "0 < current_lives g" by (simp add: is_game_over_def)
  with make_guess_lives [of g U letter] show ?case by simp
next
  case (played_reset g r)
  then have "game_inv U g" by (intro reachable_inv played_reachable)
  then have "dictionary g \<noteq> []" "max_lives g = 6" by (simp_all add: game_inv_def frame_inv_def)
  then show ?case by (simp add: reset_game_def select_target_nonempty)
qed

lemma run_game_over:
  "game_over g \<Longrightarrow> \<forall>x \<in> set xs. \<forall>r. x \<noteq> ResetGame r \<Longrightarrow> game_over (run U g xs)"
proof (induction xs arbitrary: g)
  case Nil
  then show ?case by (simp add: run_def)
next
  case (Cons x xs)
  have "game_over (step U g x)"
  proof (cases x)
    case (StartTimer t)
    with Cons.prems show ?thesis by (simp add: start_timer_def)
  next
    case (MakeGuess l)
    with Cons.prems show ?thesis by (simp add: make_guess_game_over)
  next
    case (ResetGame r)
    with Cons.prems show ?thesis by simp
  qed
  with Cons.IH [of "step U g x"] Cons.prems(2) show ?case by (simp add: run_def)
qed

text \<open>
  C1 (as amended). In every reachable state \<open>current_lives\<close> is at most \<open>max_lives\<close>,
  and \<open>current_lives \<le> 0\<close> implies \<open>game_over\<close>. In every state of a run that calls
  \<open>make_guess\<close> only while \<open>is_game_over\<close> is false, \<open>current_lives\<close> is between 0 and
  \<open>max_lives\<close>. Once \<open>game_over\<close> is true it stays true under any sequence of
  \<open>start_timer\<close> and \<open>make_guess\<close> calls, that is until \<open>reset_game\<close>.
\<close>

theorem lives_and_game_over:
  "(reachable U g \<longrightarrow> current_lives g \<le> max_lives g \<and> (current_lives g \<le> 0 \<longrightarrow> game_over g)) \<and>
   (played U g \<longrightarrow> 0 \<le> current_lives g \<and> current_lives g \<le> max_lives g) \<and>
   (game_over g \<and> (\<forall>x \<in> set xs. \<forall>r. x \<noteq> ResetGame r) \<longrightarrow> game_over (run U g xs))"
proof (intro conjI impI)
  assume "reachable U g"
  then have "lives_inv g" using reachable_inv by (simp add: game_inv_def)
  then show "current_lives g \<le> max_lives g" and "current_lives g \<le> 0 \<Longrightarrow> game_over g"
    by (simp_all add: lives_inv_def)
next
  assume "played U g"
  then show "0 \<le> current_lives g" by (rule played_lives)
next
  assume "played U g"
  then have "reachable U g" by (rule played_reachable)
  then have "lives_inv g" using reachable_inv by (simp add: game_inv_def)
  then show "current_lives g \<le> max_lives g" by (simp add: lives_inv_def)
next
  assume "game_over g \<and> (\<forall>x \<in> set xs. \<forall>r. x \<noteq> ResetGame r)"
  then show "game_over (run U g xs)" by (simp add: run_game_over)
qed

text \<open>The amended C1 at the lost game: all its hypotheses hold there.\<close>

theorem lives_and_game_over_witness:
  "reachable latin lost_cat \<and> played latin lost_cat \<and> game_over lost_cat \<and>
   current_lives lost_cat = 0 \<and> max_lives lost_cat = 6 \<and>
   game_over (run latin lost_cat [StartTimer 5, MakeGuess (ustr ''c''), MakeGuess (ustr ''q'')])"
proof -
  have p: "played latin lost_cat" by (rule played_lost_cat)
  then have r: "reachable latin lost_cat" by (rule played_reachable)
  have g: "game_over lost_cat" by (simp add: lost_cat_def)
  have x: "\<forall>x \<in> set [StartTimer 5, MakeGuess (ustr ''c''), MakeGuess (ustr ''q'')]. \<forall>r. x \<noteq> ResetGame r"
    by simp
  from lives_and_game_over [of latin lost_cat "[StartTimer 5, MakeGuess (ustr ''c''), MakeGuess (ustr ''q'')]"]
    p r g x
  show ?thesis by (simp add: lost_cat_def)
qed

text \<open>
  C1 as stated fails: a seventh miss, which \<open>make_guess\<close> accepts, takes
  \<open>current_lives\<close> from 0 to -1 in a reachable state.
\<close>

theorem lives_negative_counterexample:
  "reachable latin (step latin lost_cat (MakeGuess (ustr ''q''))) \<and>
   current_lives (step latin lost_cat (MakeGuess (ustr ''q''))) = - 1"
proof -
  have "reachable latin lost_cat" using played_lost_cat by (rule played_reachable)
  then have "reachable latin (step latin lost_cat (MakeGuess (ustr ''q'')))" by (rule reach_step)
  moreover have "current_lives (step latin lost_cat (MakeGuess (ustr ''q''))) = - 1"
    by (simp add: lost_cat_def ustr_def make_guess_latin_miss miss_state_fields)
  ultimately show ?thesis by simp
qed

section \<open>Construction\<close>

text \<open>
  C2. Construction on an empty dictionary fails with an error value, the \<open>IndexError\<close>
  that \<open>random.choice\<close> raises, and no game object results; construction fails for no
  other dictionary.
\<close>

theorem empty_dictionary_rejected:
  "init U lv [] r = Inl IndexError \<and> ((\<exists>e. init U lv dict r = Inl e) = (dict = []))"
proof -
  have "(\<exists>e. init U lv dict r = Inl e) = (dict = [])"
  proof (cases "dict = []")
    case True
    then show ?thesis by (simp add: init_empty)
  next
    case False
    then show ?thesis by (simp add: init_nonempty)
  qed
  then show ?thesis by (simp add: init_empty)
qed

section \<open>Rejected guesses\<close>

lemma msgs_differ:
  "single_letter_msg \<noteq> already_guessed_msg l" "already_guessed_msg l \<noteq> single_letter_msg"
  by (simp_all add: single_letter_msg_def already_guessed_msg_def ustr_def)

lemma reveal_error: "reveal l t i d = (Some e, d') \<Longrightarrow> e = IndexError"
  by (induction t arbitrary: i d) (auto split: if_splits)

lemma make_guess_raises:
  assumes "length (display_word g) = length (target_word g)"
  shows "(\<exists>e g'. make_guess U g letter = Raise e g') =
         (length letter \<noteq> 1 \<or> \<not> str_isalpha U letter \<or> str_lower U letter \<in> guessed_letters g)"
proof (cases "length letter \<noteq> 1 \<or> \<not> str_isalpha U letter")
  case True
  then show ?thesis by (auto simp: make_guess_invalid)
next
  case valid: False
  show ?thesis
  proof (cases "str_lower U letter \<in> guessed_letters g")
    case True
    with valid show ?thesis by (simp add: make_guess_duplicate)
  next
    case False
    with valid show ?thesis by (simp add: make_guess_accepted [OF assms])
  qed
qed

lemma make_guess_raises_invalid:
  "(\<exists>g'. make_guess U g letter = Raise (ValueError single_letter_msg) g') =
   (length letter \<noteq> 1 \<or> \<not> str_isalpha U letter)"
proof (cases "length letter \<noteq> 1 \<or> \<not> str_isalpha U letter")
  case True
  then show ?thesis by (auto simp: make_guess_invalid)
next
  case False
  then show ?thesis
    by (auto simp: make_guess_def Let_def msgs_differ dest: reveal_error
        split: prod.splits option.splits)
qed

lemma make_guess_raises_duplicate:
  "(\<exists>g'. make_guess U g letter = Raise (ValueError (already_guessed_msg (str_lower U letter))) g') =
   (length letter = 1 \<and> str_isalpha U letter \<and> str_lower U letter \<in> guessed_letters g)"
proof (cases "length letter \<noteq> 1 \<or> \<not> str_isalpha U letter")
  case True
  then show ?thesis using msgs_differ by (auto simp: make_guess_invalid)
next
  case False
  then show ?thesis
    by (auto simp: make_guess_def Let_def dest: reveal_error split: prod.splits option.splits)
qed

lemma make_guess_ValueError_state:
  "make_guess U g letter = Raise (ValueError m) g' \<Longrightarrow> g' = g"
  by (auto simp: make_guess_def Let_def dest: reveal_error
      split: prod.splits option.splits if_splits)

lemma make_guess_Return_guessed:
  "make_guess U g letter = Return b g' \<Longrightarrow>
   length letter = 1 \<and> str_isalpha U letter \<and> str_lower U letter \<in> guessed_letters g'"
  by (auto simp: make_guess_def Let_def split: prod.splits option.splits if_splits)

text \<open>
  C3. \<open>make_guess\<close> raises the single-letter \<open>ValueError\<close> exactly when the input is not
  one alphabetic character, and the already-guessed \<open>ValueError\<close> exactly when the input
  is one alphabetic character whose lower case is in \<open>guessed_letters\<close>; in a reachable
  state it raises in no other case. A \<open>ValueError\<close> leaves the whole state as it was, and
  after any accepted guess, hit or miss, the same input raises the already-guessed error.
\<close>

theorem guess_rejections:
  "((\<exists>g'. make_guess U g letter = Raise (ValueError single_letter_msg) g') =
      (\<not> (length letter = 1 \<and> str_isalpha U letter))) \<and>
   ((\<exists>g'. make_guess U g letter = Raise (ValueError (already_guessed_msg (str_lower U letter))) g') =
      (length letter = 1 \<and> str_isalpha U letter \<and> str_lower U letter \<in> guessed_letters g)) \<and>
   (reachable U g \<longrightarrow>
      (\<exists>e g'. make_guess U g letter = Raise e g') =
      (\<not> (length letter = 1 \<and> str_isalpha U letter) \<or> str_lower U letter \<in> guessed_letters g)) \<and>
   (make_guess U g letter = Raise (ValueError m) g1 \<longrightarrow> g1 = g) \<and>
   (make_guess U g letter = Return b g2 \<longrightarrow>
      make_guess U g2 letter = Raise (ValueError (already_guessed_msg (str_lower U letter))) g2)"
proof (intro conjI impI)
  show "(\<exists>g'. make_guess U g letter = Raise (ValueError single_letter_msg) g') =
      (\<not> (length letter = 1 \<and> str_isalpha U letter))"
    using make_guess_raises_invalid [of U g letter] by simp
next
  show "(\<exists>g'. make_guess U g letter = Raise (ValueError (already_guessed_msg (str_lower U letter))) g') =
      (length letter = 1 \<and> str_isalpha U letter \<and> str_lower U letter \<in> guessed_letters g)"
    by (rule make_guess_raises_duplicate)
next
  assume "reachable U g"
  then have "pattern_inv U g" using reachable_inv by (simp add: game_inv_def)
  then have "length (display_word g) = length (target_word g)" by (simp add: pattern_inv_def)
  from make_guess_raises [OF this, of U letter]
  show "(\<exists>e g'. make_guess U g letter = Raise e g') =
      (\<not> (length letter = 1 \<and> str_isalpha U letter) \<or> str_lower U letter \<in> guessed_letters g)"
    by blast
next
  assume "make_guess U g letter = Raise (ValueError m) g1"
  then show "g1 = g" by (rule make_guess_ValueError_state)
next
  assume "make_guess U g letter = Return b g2"
  then have "length letter = 1 \<and> str_isalpha U letter \<and> str_lower U letter \<in> guessed_letters g2"
    by (rule make_guess_Return_guessed)
  then show "make_guess U g2 letter = Raise (ValueError (already_guessed_msg (str_lower U letter))) g2"
    by (simp add: make_guess_duplicate)
qed


text \<open>
  C3 at the lost game: \<open>12\<close> is no letter, \<open>X\<close> was guessed (a miss), \<open>C\<close> is accepted
  (a hit) and rejected when repeated.
\<close>

theorem guess_rejections_witness:
  "reachable latin lost_cat \<and>
   make_guess latin lost_cat (ustr ''12'') = Raise (ValueError single_letter_msg) lost_cat \<and>
   make_guess latin lost_cat (ustr ''X'') = Raise (ValueError (already_guessed_msg (ustr ''x''))) lost_cat \<and>
   make_guess latin lost_cat (ustr ''C'') = Return True cat_after_c \<and>
   make_guess latin cat_after_c (ustr ''C'') = Raise (ValueError (already_guessed_msg (ustr ''c''))) cat_after_c"
proof -
  have r: "reachable latin lost_cat" using played_lost_cat by (rule played_reachable)
  have len: "length (display_word lost_cat) = length (target_word lost_cat)"
    by (simp add: lost_cat_def ustr_def)
  have i: "make_guess latin lost_cat (ustr ''12'') = Raise (ValueError single_letter_msg) lost_cat"
    by (simp add: make_guess_invalid ustr_def)
  have x: "make_guess latin lost_cat (ustr ''X'') = Raise (ValueError (already_guessed_msg (ustr ''x''))) lost_cat"
    by (simp add: make_guess_duplicate ustr_def str_isalpha_def latin_simps lost_cat_def)
  have "length (ustr ''C'') = 1" and "str_isalpha latin (ustr ''C'')"
    and "str_lower latin (ustr ''C'') = ustr ''c''"
    and "ustr ''c'' \<notin> guessed_letters lost_cat"
    and "str_in (ustr ''c'') (target_word lost_cat)"
    by (simp_all add: ustr_def str_isalpha_def latin_simps lost_cat_def)
  then have "make_guess latin lost_cat (ustr ''C'') = Return True (hit_state lost_cat (ustr ''c''))"
    by (simp add: make_guess_accepted [OF len])
  moreover have "hit_state lost_cat (ustr ''c'') = cat_after_c"
    by (simp add: lost_cat_def cat_after_c_def hit_state_def revealed_def is_won_def ustr_def)
  ultimately have c: "make_guess latin lost_cat (ustr ''C'') = Return True cat_after_c"
    by simp
  from guess_rejections [of latin lost_cat "ustr ''X''" "already_guessed_msg (ustr ''x'')" lost_cat]
    guess_rejections [of latin lost_cat "ustr ''C''" _ _ True cat_after_c] r i x c
  show ?thesis by (simp add: ustr_def latin_simps)
qed

section \<open>Accepted guesses\<close>

text \<open>
  An accepted guess whose lower case is one alphabetic character: a hit reveals a masked
  slot and costs no life, a miss costs one life and leaves the pattern.
\<close>

lemma guess_hit_or_miss:
  assumes r: "reachable U g"
    and v: "length letter = 1" "str_isalpha U letter"
    and l: "str_lower U letter = [d]" "isalpha_cp U d" "\<not> isalpha_cp U 95"
    and n: "[d] \<notin> guessed_letters g"
  shows "\<exists>g'. make_guess U g letter = Return (d \<in> set (target_word g)) g' \<and>
     (d \<in> set (target_word g) \<longrightarrow>
        current_lives g' = current_lives g \<and>
        (\<exists>i < length (display_word g). display_word g ! i = USCORE \<and> display_word g' ! i \<noteq> USCORE)) \<and>
     (d \<notin> set (target_word g) \<longrightarrow>
        current_lives g' = current_lives g - 1 \<and> display_word g' = display_word g)"
proof -
  from r have p: "pattern_inv U g" using reachable_inv by (simp add: game_inv_def)
  then have len: "length (display_word g) = length (target_word g)" by (simp add: pattern_inv_def)
  from l have d95: "d \<noteq> 95" by auto
  show ?thesis
  proof (cases "d \<in> set (target_word g)")
    case True
    then obtain i where i: "i < length (target_word g)" "target_word g ! i = d"
      by (auto simp: in_set_conv_nth)
    with p l n have "display_word g ! i = USCORE" by (simp add: pattern_inv_def)
    moreover from i len d95 have "display_word (hit_state g [d]) ! i \<noteq> USCORE"
      by (simp add: hit_state_fields revealed_nth)
    ultimately have "\<exists>i < length (display_word g).
        display_word g ! i = USCORE \<and> display_word (hit_state g [d]) ! i \<noteq> USCORE"
      using i len by auto
    with True v l n show ?thesis
      by (simp add: make_guess_accepted [OF len] str_in_single hit_state_fields)
  next
    case False
    with v l n show ?thesis
      by (simp add: make_guess_accepted [OF len] str_in_single miss_state_fields)
  qed
qed

text \<open>
  C4 fails at the letter U+0130, whose lower case is two code points: on a target that
  contains them the guess is accepted and returns \<open>True\<close>, and only \<open>guessed_letters\<close>
  changes; no slot is revealed and no life is lost.
\<close>

theorem dotted_capital_I_reveals_nothing:
  "init latin BASIC [[105, 775] @ ustr ''stanbul''] 0 = Inr istanbul_game \<and>
   length [304 :: nat] = 1 \<and> str_isalpha latin [304] \<and>
   str_lower latin [304] \<notin> guessed_letters istanbul_game \<and>
   make_guess latin istanbul_game [304] =
     Return True (istanbul_game\<lparr>guessed_letters := {[105, 775]}\<rparr>)"
proof -
  have i: "init latin BASIC [[105, 775] @ ustr ''stanbul''] 0 = Inr istanbul_game"
    by (simp add: init_nonempty istanbul_game_def latin_simps ustr_def)
  have v: "length [304 :: nat] = 1" "str_isalpha latin [304]"
    "str_lower latin [304] = [105, 775]"
    by (simp_all add: str_isalpha_def latin_simps)
  have n: "[105, 775] \<notin> guessed_letters istanbul_game" by (simp add: istanbul_game_def)
  have "make_guess latin istanbul_game [304] =
     Return True (istanbul_game\<lparr>guessed_letters := {[105, 775]}\<rparr>)"
    using v(3) by (simp add: make_guess_def str_isalpha_def latin_simps is_won_def istanbul_game_def ustr_def)
  with i v n show ?thesis by simp
qed

text \<open>
  The same run read off the state: the game is reachable, and lives and pattern after
  the guess are those before it.
\<close>

theorem dotted_capital_I_witness:
  "reachable latin istanbul_game \<and>
   current_lives (state_of (make_guess latin istanbul_game [304])) = current_lives istanbul_game \<and>
   display_word (state_of (make_guess latin istanbul_game [304])) = display_word istanbul_game \<and>
   guessed_letters (state_of (make_guess latin istanbul_game [304])) = {[105, 775]}"
proof -
  from dotted_capital_I_reveals_nothing
  have i: "init latin BASIC [[105, 775] @ ustr ''stanbul''] 0 = Inr istanbul_game"
    and g: "make_guess latin istanbul_game [304] =
      Return True (istanbul_game\<lparr>guessed_letters := {[105, 775]}\<rparr>)"
    by simp_all
  from i have "reachable latin istanbul_game" by (rule reach_init)
  with g show ?thesis by simp
qed

section \<open>The won flag\<close>

lemma make_guess_state_cases:
  assumes "length (display_word g) = length (target_word g)"
  obtains (same) "state_of (make_guess U g letter) = g"
  | (hit) "state_of (make_guess U g letter) = hit_state g (str_lower U letter)"
  | (miss) "state_of (make_guess U g letter) = miss_state g (str_lower U letter)"
proof (cases "length letter \<noteq> 1 \<or> \<not> str_isalpha U letter")
  case True
  then have "state_of (make_guess U g letter) = g" by (simp add: make_guess_invalid)
  then show ?thesis by (rule same)
next
  case valid: False
  show ?thesis
  proof (cases "str_lower U letter \<in> guessed_letters g")
    case True
    with valid have "state_of (make_guess U g letter) = g" by (simp add: make_guess_duplicate)
    then show ?thesis by (rule same)
  next
    case False
    with valid hit miss show ?thesis
      by (cases "str_in (str_lower U letter) (target_word g)")
         (simp_all add: make_guess_accepted [OF assms])
  qed
qed

lemma mask_has_uscore: "\<exists>c \<in> set w. isalpha_cp U c \<Longrightarrow> USCORE \<in> set (mask U w)"
  by (induction w) auto

lemma make_guess_target: "target_word (state_of (make_guess U g letter)) = target_word g"
  by (simp add: make_guess_def Let_def split: prod.splits option.splits)

text \<open>
  While the target of the round has a letter, a pattern without underscore has been
  completed by a hit, which set \<open>won\<close>.
\<close>

lemma reachable_won_complete:
  assumes "reachable U g"
    and "\<exists>c \<in> set (target_word g). isalpha_cp U c"
    and "is_won g"
  shows "won g"
  using assms
proof (induction rule: reachable.induct)
  case (reach_init lv dict r g)
  have "display_word g = mask U (target_word g)"
    using reach_init(1) by (cases "dict = []") (auto simp: init_empty init_nonempty)
  moreover from reach_init(2) have "USCORE \<in> set (mask U (target_word g))"
    by (rule mask_has_uscore)
  ultimately show ?case using reach_init(3) by (simp add: is_won_def)
next
  case (reach_step g x)
  from reach_step.hyps have inv: "game_inv U g" by (rule reachable_inv)
  then have len: "length (display_word g) = length (target_word g)"
    by (simp add: game_inv_def pattern_inv_def)
  show ?case
  proof (cases x)
    case (StartTimer t)
    with reach_step.prems reach_step.IH show ?thesis by (simp add: start_timer_def is_won_def)
  next
    case (MakeGuess l)
    with reach_step.prems(1) have t: "\<exists>c \<in> set (target_word g). isalpha_cp U c"
      by (simp add: make_guess_target)
    note IH = reach_step.IH [OF t]
    from len show ?thesis
    proof (cases rule: make_guess_state_cases [of g U l])
      case same
      with MakeGuess reach_step.prems(2) IH show ?thesis by simp
    next
      case hit
      with MakeGuess reach_step.prems(2) show ?thesis by (simp add: hit_state_flags)
    next
      case miss
      with MakeGuess reach_step.prems(2) IH show ?thesis
        by (simp add: miss_state_fields is_won_def)
    qed
  next
    case (ResetGame r)
    let ?w = "dictionary g ! (r mod length (dictionary g))"
    from inv have ne: "dictionary g \<noteq> []" by (simp add: game_inv_def frame_inv_def)
    with ResetGame reach_step.prems(1) have "\<exists>c \<in> set ?w. isalpha_cp U c"
      by (simp add: reset_game_def select_target_nonempty)
    then have "USCORE \<in> set (mask U ?w)" by (rule mask_has_uscore)
    with ResetGame ne reach_step.prems(2) show ?thesis
      by (simp add: reset_game_def select_target_nonempty is_won_def)
  qed
qed

text \<open>
  The pattern has no underscore exactly when no letter is masked and the target itself
  has no underscore.
\<close>

lemma is_won_no_masked:
  assumes "pattern_inv U g"
  shows "is_won g = (no_masked U g \<and> 95 \<notin> set (target_word g))"
proof
  let ?t = "target_word g" and ?d = "display_word g"
  from assms have len: "length ?d = length ?t" by (simp add: pattern_inv_def)
  assume w: "is_won g"
  have "\<not> masked U g i" if "i < length ?t" for i
  proof
    assume "masked U g i"
    then have "?d ! i = USCORE" by (simp add: masked_def)
    with that len have "USCORE \<in> set ?d" by (metis nth_mem)
    with w show False by (simp add: is_won_def)
  qed
  moreover have "95 \<notin> set ?t"
  proof
    assume "95 \<in> set ?t"
    then obtain i where i: "i < length ?t" "?t ! i = 95" by (auto simp: in_set_conv_nth)
    with assms have "?d ! i = USCORE" by (simp add: pattern_inv_def)
    with i len have "USCORE \<in> set ?d" by (metis nth_mem)
    with w show False by (simp add: is_won_def)
  qed
  ultimately show "no_masked U g \<and> 95 \<notin> set ?t" by (simp add: no_masked_def)
next
  let ?t = "target_word g" and ?d = "display_word g"
  from assms have len: "length ?d = length ?t" by (simp add: pattern_inv_def)
  assume a: "no_masked U g \<and> 95 \<notin> set ?t"
  have "USCORE \<notin> set ?d"
  proof
    assume "USCORE \<in> set ?d"
    with len obtain i where i: "i < length ?t" "?d ! i = USCORE"
      by (auto simp: in_set_conv_nth)
    from a i have "\<not> masked U g i" by (simp add: no_masked_def)
    with i have "\<not> isalpha_cp U (?t ! i)" by (simp add: masked_def)
    with assms i have "?t ! i = 95" by (simp add: pattern_inv_def)
    with i(1) have "95 \<in> set ?t" by (metis nth_mem)
    with a show False by simp
  qed
  then show "is_won g" by (simp add: is_won_def)
qed

lemma join_uscore:
  "\<forall>e \<in> set d. length e = 1 \<Longrightarrow> (95 \<in> set (join SPACE d)) = (USCORE \<in> set d)"
proof (induction SPACE d rule: join.induct)
  case 1
  then show ?case by simp
next
  case (2 x)
  then show ?case by (cases x) auto
next
  case (3 x y ys)
  then show ?case by (cases x) auto
qed

lemma pattern_inv_slots: "pattern_inv U g \<Longrightarrow> \<forall>e \<in> set (display_word g). length e = 1"
  by (auto simp: pattern_inv_def in_set_conv_nth)

text \<open>
  C5 (as amended). In every reachable state \<open>won\<close> implies that no masked position
  remains, that is no letter of the target still shows the placeholder; when the
  target of the round has at least one letter and no underscore of its own, \<open>won\<close> holds
  iff no masked position remains; and \<open>is_won\<close> holds iff the display string has no
  underscore.
\<close>

theorem won_flag_and_pattern:
  assumes "reachable U g"
  shows "(won g \<longrightarrow> no_masked U g) \<and>
         ((\<exists>c \<in> set (target_word g). isalpha_cp U c) \<and> 95 \<notin> set (target_word g) \<longrightarrow>
            won g = no_masked U g) \<and>
         is_won g = (95 \<notin> set (get_display_string g))"
proof -
  from assms have inv: "game_inv U g" by (rule reachable_inv)
  then have p: "pattern_inv U g" and w: "won g \<longrightarrow> is_won g"
    by (simp_all add: game_inv_def won_inv_def)
  note m = is_won_no_masked [OF p]
  from w m have a: "won g \<longrightarrow> no_masked U g" by simp
  have b: "won g = no_masked U g"
    if "(\<exists>c \<in> set (target_word g). isalpha_cp U c) \<and> 95 \<notin> set (target_word g)"
  proof
    assume "won g"
    with a show "no_masked U g" by simp
  next
    assume "no_masked U g"
    with that m have "is_won g" by simp
    with that show "won g" by (intro reachable_won_complete [OF assms]) simp_all
  qed
  from p have "\<forall>e \<in> set (display_word g). length e = 1" by (rule pattern_inv_slots)
  then have c: "is_won g = (95 \<notin> set (get_display_string g))"
    by (simp add: is_won_def get_display_string_def join_uscore)
  from a b c show ?thesis by blast
qed

lemma reachable_won_cat: "reachable latin won_cat"
proof -
  let ?g0 = "\<lparr>level = BASIC, max_lives = 6, current_lives = 6, time_limit = 15,
     guessed_letters = {}, game_over = False, won = False, target_word = ustr ''cat'',
     display_word = [USCORE, USCORE, USCORE], start_time = 0, dictionary = [ustr ''cat'']\<rparr>"
  have "reachable latin ?g0"
    by (rule reach_init [of latin BASIC "[ustr ''cat'']" 0]) (simp add: init_cat)
  then have "reachable latin (run latin ?g0 [MakeGuess (ustr ''c''), MakeGuess (ustr ''a''),
      MakeGuess (ustr ''t'')])"
    by (rule reachable_run)
  moreover have "run latin ?g0 [MakeGuess (ustr ''c''), MakeGuess (ustr ''a''),
      MakeGuess (ustr ''t'')] = won_cat"
    by (auto simp add: run_def make_guess_def Let_def str_isalpha_def latin_simps is_won_def
        ustr_def won_cat_def)
  ultimately show ?thesis by simp
qed

text \<open>The amended C5 at the won game: its target has letters and no underscore.\<close>

theorem won_flag_and_pattern_witness:
  "reachable latin won_cat \<and> list_ex (isalpha_cp latin) (target_word won_cat) \<and>
   95 \<notin> set (target_word won_cat) \<and> won won_cat \<and> no_masked latin won_cat \<and>
   is_won won_cat \<and> 95 \<notin> set (get_display_string won_cat)"
proof -
  have a: "\<exists>c \<in> set (target_word won_cat). isalpha_cp latin c"
    and b: "95 \<notin> set (target_word won_cat)"
    by (simp_all add: won_cat_def ustr_def latin_simps)
  have w: "won won_cat" and i: "is_won won_cat"
    by (simp_all add: won_cat_def is_won_def ustr_def)
  from won_flag_and_pattern [OF reachable_won_cat] a b w i reachable_won_cat show ?thesis
    by (simp add: list_ex_iff)
qed

text \<open>
  C5 as stated fails: a round on a target without letters starts with no masked
  position, \<open>is_won\<close> true and the display string free of underscores, and \<open>won\<close> false.
\<close>

theorem won_flag_counterexample:
  "reachable latin digits_game \<and> no_masked latin digits_game \<and> is_won digits_game \<and>
   95 \<notin> set (get_display_string digits_game) \<and> \<not> won digits_game"
proof -
  have "init latin BASIC [ustr ''42''] 0 = Inr digits_game"
    by (simp add: init_nonempty digits_game_def latin_simps ustr_def)
  then have "reachable latin digits_game" by (rule reach_init)
  moreover have "no_masked latin digits_game"
    by (simp add: no_masked_def masked_def digits_game_def ustr_def latin_simps less_Suc_eq)
  ultimately show ?thesis
    by (simp add: digits_game_def is_won_def get_display_string_def ustr_def)
qed

text \<open>
  A target with an underscore of its own, \<open>a_b\<close>, after the guesses a and b: no letter is
  masked any more, and the target's underscore keeps \<open>is_won\<close> and \<open>won\<close> false.
\<close>

lemma underscore_target_never_won:
  "reachable latin a_b_game \<and> no_masked latin a_b_game \<and> \<not> is_won a_b_game \<and> \<not> won a_b_game"
proof -
  let ?g0 = "\<lparr>level = BASIC, max_lives = 6, current_lives = 6, time_limit = 15,
     guessed_letters = {}, game_over = False, won = False, target_word = ustr ''a_b'',
     display_word = [USCORE, USCORE, USCORE], start_time = 0, dictionary = [ustr ''a_b'']\<rparr>"
  have "init latin BASIC [ustr ''a_b''] 0 = Inr ?g0"
    by (simp add: init_nonempty latin_simps ustr_def)
  then have "reachable latin ?g0" by (rule reach_init)
  then have "reachable latin (run latin ?g0 [MakeGuess (ustr ''a''), MakeGuess (ustr ''b'')])"
    by (rule reachable_run)
  moreover have "run latin ?g0 [MakeGuess (ustr ''a''), MakeGuess (ustr ''b'')] = a_b_game"
    by (auto simp add: run_def make_guess_def Let_def str_isalpha_def latin_simps is_won_def
        ustr_def a_b_game_def)
  ultimately have "reachable latin a_b_game" by simp
  moreover have "no_masked latin a_b_game"
    by (simp add: no_masked_def masked_def a_b_game_def ustr_def latin_simps less_Suc_eq
        numeral_3_eq_3)
  ultimately show ?thesis by (simp add: a_b_game_def is_won_def)
qed

section \<open>The timer\<close>

lemma make_guess_clock:
  "start_time (state_of (make_guess U g letter)) = start_time g \<and>
   time_limit (state_of (make_guess U g letter)) = time_limit g"
  by (simp add: make_guess_def Let_def split: prod.splits option.splits)

lemma run_guesses_clock:
  "\<forall>x \<in> set xs. \<exists>l. x = MakeGuess l \<Longrightarrow>
   start_time (run U g xs) = start_time g \<and> time_limit (run U g xs) = time_limit g"
proof (induction xs arbitrary: g)
  case Nil
  then show ?case by (simp add: run_def)
next
  case (Cons x xs)
  then obtain l where "x = MakeGuess l" by auto
  with Cons.IH [of "step U g x"] Cons.prems show ?case
    by (simp add: run_def make_guess_clock)
qed

lemma remaining_time_mono:
  "early \<le> late \<Longrightarrow> start_time g' = start_time g \<Longrightarrow> time_limit g' = time_limit g \<Longrightarrow>
   get_remaining_time late g' \<le> get_remaining_time early g"
  by (auto simp: get_remaining_time_def)

text \<open>
  C6. In every reachable state \<open>get_remaining_time\<close> is never negative; it is the full
  limit of 15 seconds while \<open>start_time\<close> is 0, and otherwise 15 minus the time elapsed
  since \<open>start_time\<close>, floored at 0; and for clock readings \<open>early \<le> late\<close> the value at
  \<open>late\<close> is at most the value at \<open>early\<close>, in the same state and also after any
  guesses made in between. The query is a function of the clock reading and the state,
  and returns no state.
\<close>

theorem remaining_time_clamped:
  assumes "reachable U g"
  shows "0 \<le> get_remaining_time now g \<and>
     time_limit g = 15 \<and>
     (start_time g = 0 \<longrightarrow> get_remaining_time now g = 15) \<and>
     (start_time g \<noteq> 0 \<longrightarrow> get_remaining_time now g = max 0 (15 - (now - start_time g))) \<and>
     (early \<le> late \<longrightarrow> get_remaining_time late g \<le> get_remaining_time early g) \<and>
     (early \<le> late \<and> (\<forall>x \<in> set xs. \<exists>l. x = MakeGuess l) \<longrightarrow>
        get_remaining_time late (run U g xs) \<le> get_remaining_time early g)"
proof -
  from assms have "game_inv U g" by (rule reachable_inv)
  then have tl: "time_limit g = 15" by (simp add: game_inv_def frame_inv_def)
  then have a: "0 \<le> get_remaining_time now g"
    and b: "start_time g = 0 \<longrightarrow> get_remaining_time now g = 15"
    and c: "start_time g \<noteq> 0 \<longrightarrow> get_remaining_time now g = max 0 (15 - (now - start_time g))"
    by (simp_all add: get_remaining_time_def)
  have d: "early \<le> late \<longrightarrow> get_remaining_time late g \<le> get_remaining_time early g"
    by (simp add: remaining_time_mono)
  have e: "early \<le> late \<and> (\<forall>x \<in> set xs. \<exists>l. x = MakeGuess l) \<longrightarrow>
        get_remaining_time late (run U g xs) \<le> get_remaining_time early g"
    using run_guesses_clock [of xs U g] by (auto intro: remaining_time_mono)
  from tl a b c d e show ?thesis by blast
qed

lemma reachable_fresh_cat:
  "reachable latin \<lparr>level = BASIC, max_lives = 6, current_lives = 6, time_limit = 15,
     guessed_letters = {}, game_over = False, won = False, target_word = ustr ''cat'',
     display_word = [USCORE, USCORE, USCORE], start_time = 0, dictionary = [ustr ''cat'']\<rparr>"
  by (rule reach_init [of latin BASIC "[ustr ''cat'']" 0]) (simp add: init_cat)

lemma reachable_timed_cat: "reachable latin timed_cat"
  using reach_step [OF reachable_fresh_cat, of "StartTimer 100"]
  by (simp add: start_timer_def timed_cat_def)

text \<open>C6 at a game whose timer started at 100, and at a game whose timer never started.\<close>

theorem remaining_time_clamped_witness:
  "reachable latin timed_cat \<and> start_time timed_cat = 100 \<and>
   get_remaining_time 105 timed_cat = 10 \<and> get_remaining_time 120 timed_cat = 0 \<and>
   get_remaining_time 106 (run latin timed_cat [MakeGuess (ustr ''c'')]) \<le> 10 \<and>
   get_remaining_time 7 lost_cat = 15"
proof -
  have g: "\<forall>x \<in> set [MakeGuess (ustr ''c'')]. \<exists>l. x = MakeGuess l" by simp
  have l: "reachable latin lost_cat" using played_lost_cat by (rule played_reachable)
  have s: "start_time timed_cat = 100" "start_time lost_cat = 0"
    by (simp_all add: timed_cat_def lost_cat_def)
  from remaining_time_clamped [OF reachable_timed_cat, where now = 105] s
  have a: "get_remaining_time 105 timed_cat = 10" by simp
  from remaining_time_clamped [OF reachable_timed_cat, where now = 120] s
  have b: "get_remaining_time 120 timed_cat = 0" by simp
  from remaining_time_clamped [OF reachable_timed_cat, where early = 105 and late = 106
      and xs = "[MakeGuess (ustr ''c'')]"] g a
  have c: "get_remaining_time 106 (run latin timed_cat [MakeGuess (ustr ''c'')]) \<le> 10" by simp
  from remaining_time_clamped [OF l, where now = 7] s
  have d: "get_remaining_time 7 lost_cat = 15" by simp
  from a b c d s reachable_timed_cat show ?thesis by simp
qed

section \<open>The display string\<close>

text \<open>
  C7. On the dictionary \<open>["hello world"]\<close> at level \<open>INTERMEDIATE\<close> (the ten letters
  alphabetic, the space not) the first display string is
  \<open>_ _ _ _ _   _ _ _ _ _\<close>: eleven slots joined by single spaces, ten of them
  underscores and slot 5 the space of the phrase itself.
\<close>

theorem hello_world_display:
  assumes "\<forall>c \<in> set (ustr ''helloworld''). isalpha_cp U c" and "\<not> isalpha_cp U 32"
  shows "\<exists>g. init U INTERMEDIATE [ustr ''hello world''] r = Inr g \<and>
     get_display_string g = ustr ''_ _ _ _ _   _ _ _ _ _'' \<and>
     length (display_word g) = 11 \<and>
     display_word g ! 5 = SPACE \<and>
     count_list (display_word g) USCORE = 10"
proof -
  from assms have "mask U (ustr ''hello world'') =
    [USCORE, USCORE, USCORE, USCORE, USCORE, SPACE, USCORE, USCORE, USCORE, USCORE, USCORE]"
    by (simp add: ustr_def)
  then show ?thesis
    by (simp add: init_nonempty get_display_string_def) (simp add: ustr_def)
qed

text \<open>C7 with the tables of Basic Latin.\<close>

theorem hello_world_display_witness:
  "list_all (isalpha_cp latin) (ustr ''helloworld'') \<and> \<not> isalpha_cp latin 32 \<and>
   (\<exists>g. init latin INTERMEDIATE [ustr ''hello world''] 0 = Inr g \<and>
      get_display_string g = ustr ''_ _ _ _ _   _ _ _ _ _'' \<and>
      length (display_word g) = 11 \<and> display_word g ! 5 = SPACE \<and>
      count_list (display_word g) USCORE = 10)"
proof -
  have a: "\<forall>c \<in> set (ustr ''helloworld''). isalpha_cp latin c"
    by (simp add: ustr_def latin_simps)
  have b: "\<not> isalpha_cp latin 32" by (simp add: latin_simps)
  from hello_world_display [OF a b, of 0] a b show ?thesis
    by (simp add: list_all_iff)
qed

section \<open>The status message\<close>

lemma msg_contains_target:
  "str_in t (victory_msg t)" "str_in t (time_up_msg t)" "str_in t (loss_msg t)"
proof -
  have "str_in t (p @ t @ QUOTE)" for p by (rule str_in_append)
  from this [of "ustr ''Congratulations! You guessed the word: '' @ QUOTE"]
    this [of "ustr ''Time'' @ QUOTE @ ustr ''s up! The answer was: '' @ QUOTE"]
    this [of "ustr ''Game over! The answer was: '' @ QUOTE"]
  show "str_in t (victory_msg t)" "str_in t (time_up_msg t)" "str_in t (loss_msg t)"
    by (simp_all add: victory_msg_def time_up_msg_def loss_msg_def)
qed

lemma msgs_distinct:
  "victory_msg t \<noteq> time_up_msg t'" "victory_msg t \<noteq> loss_msg t'"
  "victory_msg t \<noteq> remaining_msg n" "time_up_msg t \<noteq> loss_msg t'"
  "time_up_msg t \<noteq> remaining_msg n" "loss_msg t \<noteq> remaining_msg n"
  by (simp_all add: victory_msg_def time_up_msg_def loss_msg_def remaining_msg_def ustr_def)

text \<open>
  C8. \<open>get_game_status\<close> returns the victory message if \<open>won\<close>; else the time-up
  message if the time is up; else the loss message if \<open>current_lives \<le> 0\<close>; else the
  message with the truncated remaining time. The first three contain the target, and
  no two of the four kinds of message are ever the same string.
\<close>

theorem status_precedence:
  "(won g \<longrightarrow> get_game_status t1 t2 g = victory_msg (target_word g)) \<and>
   (\<not> won g \<and> is_time_up t1 g \<longrightarrow> get_game_status t1 t2 g = time_up_msg (target_word g)) \<and>
   (\<not> won g \<and> \<not> is_time_up t1 g \<and> current_lives g \<le> 0 \<longrightarrow>
      get_game_status t1 t2 g = loss_msg (target_word g)) \<and>
   (\<not> won g \<and> \<not> is_time_up t1 g \<and> 0 < current_lives g \<longrightarrow>
      get_game_status t1 t2 g = remaining_msg (py_int (get_remaining_time t2 g))) \<and>
   str_in t (victory_msg t) \<and> str_in t (time_up_msg t) \<and> str_in t (loss_msg t) \<and>
   victory_msg t \<noteq> time_up_msg t' \<and> victory_msg t \<noteq> loss_msg t' \<and>
   victory_msg t \<noteq> remaining_msg n \<and> time_up_msg t \<noteq> loss_msg t' \<and>
   time_up_msg t \<noteq> remaining_msg n \<and> loss_msg t \<noteq> remaining_msg n"
  by (simp add: get_game_status_def msg_contains_target msgs_distinct)

text \<open>
  C8 at four games: won with the time expired (victory is reported), time expired,
  lost, and running with 9.5 seconds left.
\<close>

theorem status_precedence_witness:
  "won won_cat_late \<and> is_time_up 200 won_cat_late \<and>
   get_game_status 200 200 won_cat_late = ustr ''Congratulations! You guessed the word: '' @ QUOTE @ ustr ''cat'' @ QUOTE \<and>
   \<not> won timed_cat \<and> is_time_up 200 timed_cat \<and>
   get_game_status 200 200 timed_cat = time_up_msg (ustr ''cat'') \<and>
   \<not> won lost_cat \<and> \<not> is_time_up 200 lost_cat \<and> current_lives lost_cat \<le> 0 \<and>
   get_game_status 200 200 lost_cat = loss_msg (ustr ''cat'') \<and>
   \<not> is_time_up 105 timed_cat \<and> 0 < current_lives timed_cat \<and>
   get_game_status 105 (211 / 2) timed_cat = ustr ''Time remaining: 9 seconds''"
proof -
  have w: "won won_cat_late" "is_time_up 200 won_cat_late" "target_word won_cat_late = ustr ''cat''"
    by (simp_all add: won_cat_late_def won_cat_def is_time_up_def get_remaining_time_def)
  have t: "\<not> won timed_cat" "is_time_up 200 timed_cat" "\<not> is_time_up 105 timed_cat"
    "0 < current_lives timed_cat" "target_word timed_cat = ustr ''cat''"
    "py_int (get_remaining_time (211 / 2) timed_cat) = 9"
    by (simp_all add: timed_cat_def is_time_up_def get_remaining_time_def py_int_def)
  have l: "\<not> won lost_cat" "\<not> is_time_up 200 lost_cat" "current_lives lost_cat \<le> 0"
    "target_word lost_cat = ustr ''cat''"
    by (simp_all add: lost_cat_def is_time_up_def get_remaining_time_def)
  have v: "victory_msg (ustr ''cat'') = ustr ''Congratulations! You guessed the word: '' @ QUOTE @ ustr ''cat'' @ QUOTE"
    by (simp add: victory_msg_def ustr_def)
  have r: "remaining_msg 9 = ustr ''Time remaining: 9 seconds''"
    by (simp add: remaining_msg_def str_int_def str_nat.simps ustr_def)
  from status_precedence [of won_cat_late 200 200] status_precedence [of timed_cat 200 200]
    status_precedence [of lost_cat 200 200] status_precedence [of timed_cat 105 "211 / 2"]
    w t l v r
  show ?thesis by simp
qed

section \<open>Reset\<close>

text \<open>
  C9. In every reachable state \<open>reset_game\<close> returns, and leaves exactly the state that
  construction with the same level, dictionary and draw gives: full lives, no guessed
  letters, \<open>game_over\<close> and \<open>won\<close> false, timer unset, a target drawn from the same
  dictionary and masked afresh; level, \<open>max_lives\<close>, \<open>time_limit\<close> and the dictionary are
  unchanged.
\<close>

theorem reset_restores:
  assumes "reachable U g"
  shows "\<exists>g'. reset_game U r g = Return () g' \<and>
     init U (level g) (dictionary g) r = Inr g' \<and>
     current_lives g' = max_lives g' \<and> guessed_letters g' = {} \<and>
     \<not> game_over g' \<and> \<not> won g' \<and> start_time g' = 0 \<and>
     target_word g' \<in> set (dictionary g) \<and>
     target_word g' = dictionary g ! (r mod length (dictionary g)) \<and>
     display_word g' = mask U (target_word g') \<and>
     level g' = level g \<and> max_lives g' = max_lives g \<and>
     time_limit g' = time_limit g \<and> dictionary g' = dictionary g"
proof -
  from assms have "game_inv U g" by (rule reachable_inv)
  then have ne: "dictionary g \<noteq> []" and ml: "max_lives g = 6" and tl: "time_limit g = 15"
    by (simp_all add: game_inv_def frame_inv_def)
  from ne have "r mod length (dictionary g) < length (dictionary g)" by simp
  then have mem: "dictionary g ! (r mod length (dictionary g)) \<in> set (dictionary g)"
    by (rule nth_mem)
  from ne ml tl mem show ?thesis
    by (simp add: reset_game_def select_target_nonempty init_nonempty)
qed

text \<open>C9 at the lost game.\<close>

theorem reset_restores_witness:
  "reachable latin lost_cat \<and>
   reset_game latin 3 lost_cat =
     Return () \<lparr>level = BASIC, max_lives = 6, current_lives = 6, time_limit = 15,
       guessed_letters = {}, game_over = False, won = False, target_word = ustr ''cat'',
       display_word = [USCORE, USCORE, USCORE], start_time = 0, dictionary = [ustr ''cat'']\<rparr>"
proof -
  have r: "reachable latin lost_cat" using played_lost_cat by (rule played_reachable)
  have "level lost_cat = BASIC" "dictionary lost_cat = [ustr ''cat'']"
    by (simp_all add: lost_cat_def)
  with reset_restores [OF r, of 3] r init_cat show ?thesis
    by (auto simp: init_nonempty)
qed

section \<open>Guessing after the game is over\<close>

lemma hit_state_changes: "l \<notin> guessed_letters g \<Longrightarrow> hit_state g l \<noteq> g"
proof
  assume "l \<notin> guessed_letters g" and "hit_state g l = g"
  then have "guessed_letters (hit_state g l) = guessed_letters g" by simp
  with \<open>l \<notin> guessed_letters g\<close> show False by (auto simp: hit_state_fields)
qed

lemma miss_state_changes: "miss_state g l \<noteq> g"
proof
  assume "miss_state g l = g"
  then have "current_lives (miss_state g l) = current_lives g" by simp
  then show False by (simp add: miss_state_fields)
qed

text \<open>
  C10. In a reachable state where \<open>is_game_over\<close> is true, a guess of one alphabetic
  character not yet guessed does not raise: it returns whether the letter occurs in the
  target and changes the state, adding the letter to \<open>guessed_letters\<close>; a hit reveals
  the letter at every matching slot and keeps the lives, a miss keeps the pattern and
  takes one life, also from 0 to -1.
\<close>

theorem guess_after_game_over:
  assumes "reachable U g" and "is_game_over now g"
    and "length letter = 1" and "str_isalpha U letter"
    and "str_lower U letter \<notin> guessed_letters g"
  shows "\<exists>g'. make_guess U g letter = Return (str_in (str_lower U letter) (target_word g)) g' \<and>
     g' \<noteq> g \<and>
     guessed_letters g' = insert (str_lower U letter) (guessed_letters g) \<and>
     (str_in (str_lower U letter) (target_word g) \<longrightarrow>
        display_word g' = revealed (str_lower U letter) (target_word g) (display_word g) \<and>
        current_lives g' = current_lives g) \<and>
     (\<not> str_in (str_lower U letter) (target_word g) \<longrightarrow>
        display_word g' = display_word g \<and> current_lives g' = current_lives g - 1)"
proof -
  from assms(1) have "game_inv U g" by (rule reachable_inv)
  then have len: "length (display_word g) = length (target_word g)"
    by (simp add: game_inv_def pattern_inv_def)
  from assms(3-5) show ?thesis
    by (simp add: make_guess_accepted [OF len] hit_state_fields miss_state_fields
        hit_state_changes miss_state_changes)
qed

text \<open>
  C10 at the lost game (a miss takes the lives from 0 to -1, a hit reveals a slot) and
  at the won game (a miss takes a life).
\<close>

theorem guess_after_game_over_witness:
  "reachable latin lost_cat \<and> is_game_over 0 lost_cat \<and> current_lives lost_cat = 0 \<and>
   make_guess latin lost_cat (ustr ''q'') = Return False (miss_state lost_cat (ustr ''q'')) \<and>
   current_lives (miss_state lost_cat (ustr ''q'')) = - 1 \<and>
   make_guess latin lost_cat (ustr ''C'') = Return True cat_after_c \<and>
   display_word cat_after_c = [ustr ''c'', USCORE, USCORE] \<and>
   reachable latin won_cat \<and> is_game_over 0 won_cat \<and>
   current_lives (state_of (make_guess latin won_cat (ustr ''q''))) = 5"
proof -
  have r: "reachable latin lost_cat" using played_lost_cat by (rule played_reachable)
  have o: "is_game_over 0 lost_cat" "current_lives lost_cat = 0" "is_game_over 0 won_cat"
    "current_lives won_cat = 6"
    by (simp_all add: is_game_over_def lost_cat_def won_cat_def)
  have q: "length (ustr ''q'') = 1" "str_isalpha latin (ustr ''q'')"
    "str_lower latin (ustr ''q'') = ustr ''q''" "ustr ''q'' \<notin> guessed_letters lost_cat"
    "\<not> str_in (ustr ''q'') (target_word lost_cat)"
    "ustr ''q'' \<notin> guessed_letters won_cat" "\<not> str_in (ustr ''q'') (target_word won_cat)"
    by (simp_all add: ustr_def str_isalpha_def latin_simps lost_cat_def won_cat_def)
  have c: "length (ustr ''C'') = 1" "str_isalpha latin (ustr ''C'')"
    "str_lower latin (ustr ''C'') = ustr ''c''" "ustr ''c'' \<notin> guessed_letters lost_cat"
    "str_in (ustr ''c'') (target_word lost_cat)"
    by (simp_all add: ustr_def str_isalpha_def latin_simps lost_cat_def)
  from guess_after_game_over [OF r o(1) q(1,2)] q
  obtain g1 where g1: "make_guess latin lost_cat (ustr ''q'') = Return False g1"
    "current_lives g1 = current_lives lost_cat - 1" "display_word g1 = display_word lost_cat"
    "guessed_letters g1 = insert (ustr ''q'') (guessed_letters lost_cat)"
    by auto
  from guess_after_game_over [OF r o(1) c(1,2)] c
  obtain g2 where g2: "make_guess latin lost_cat (ustr ''C'') = Return True g2"
    "display_word g2 = revealed (ustr ''c'') (target_word lost_cat) (display_word lost_cat)"
    by auto
  from guess_after_game_over [OF reachable_won_cat o(3) q(1,2)] q
  obtain g3 where g3: "make_guess latin won_cat (ustr ''q'') = Return False g3"
    "current_lives g3 = current_lives won_cat - 1"
    by auto
  have len: "length (display_word lost_cat) = length (target_word lost_cat)"
    by (simp add: lost_cat_def ustr_def)
  from q c have m: "make_guess latin lost_cat (ustr ''q'') = Return False (miss_state lost_cat (ustr ''q''))"
    "make_guess latin lost_cat (ustr ''C'') = Return True (hit_state lost_cat (ustr ''c''))"
    by (simp_all add: make_guess_accepted [OF len])
  have h: "hit_state lost_cat (ustr ''c'') = cat_after_c"
    by (simp add: lost_cat_def cat_after_c_def hit_state_def revealed_def is_won_def ustr_def)
  have d: "display_word cat_after_c = [ustr ''c'', USCORE, USCORE]" by (simp add: cat_after_c_def)
  from g1 g2 g3 m h d r o reachable_won_cat show ?thesis by simp
qed

end
